theory Spec2Isabelle
  imports Main
begin

section \<open>Values and their shapes\<close>

text \<open>
  The combinators of \<^verbatim>\<open>cppcmb.hpp\<close> are templates: the data a parser yields has a
  static type, and the shaping helpers of namespace \<^verbatim>\<open>detail\<close> dispatch on that type
  (is it a \<^verbatim>\<open>std::tuple\<close>, is it a one-element tuple). The model keeps the shape in the
  value: a value is an atom (any type the helpers do not look into), a \<^verbatim>\<open>std::tuple\<close>
  of values, a \<^verbatim>\<open>std::optional\<close> of a value, or a collection of values (the container
  filled by the repetitions).
\<close>

datatype 'a data =
    Atom 'a
  | Tuple "'a data list"
  | Optional "'a data option"
  | Collection "'a data list"

text \<open>
  \<^verbatim>\<open>as_tuple\<close>: a tuple is passed through, anything else is wrapped by
  \<^verbatim>\<open>std::make_tuple\<close>. The tuple it returns is given by the list of its components.
\<close>

fun as_tuple :: "'a data \<Rightarrow> 'a data list" where
  "as_tuple (Tuple xs) = xs"
| "as_tuple v = [v]"

text \<open>
  \<^verbatim>\<open>unwrap_tuple\<close>: the specialisation for \<^verbatim>\<open>std::tuple<T>\<close> takes the only component
  and unwraps it again; every other type is returned as it is.
\<close>

fun unwrap_tuple :: "'a data \<Rightarrow> 'a data" where
  "unwrap_tuple (Tuple [x]) = unwrap_tuple x"
| "unwrap_tuple v = v"

text \<open>\<^verbatim>\<open>std::tuple_cat\<close> on tuples given by their component lists.\<close>

definition tuple_cat :: "'a data list list \<Rightarrow> 'a data list" where
  "tuple_cat ts = concat ts"

text \<open>\<^verbatim>\<open>tuple_of\<close>: the argument itself when there is exactly one, a tuple otherwise.\<close>

definition tuple_of :: "'a data list \<Rightarrow> 'a data" where
  "tuple_of args = (if length args = 1 then hd args else Tuple args)"

text \<open>\<^verbatim>\<open>concat\<close>: \<^verbatim>\<open>unwrap_tuple(std::tuple_cat(as_tuple(args)...))\<close>.\<close>

definition concat_values :: "'a data list \<Rightarrow> 'a data" where
  "concat_values args = unwrap_tuple (Tuple (tuple_cat (map as_tuple args)))"

text \<open>
  The number of components a value contributes to a concatenation: those of a tuple, one
  for a bare value.
\<close>

definition arity :: "'a data \<Rightarrow> nat" where
  "arity v = length (as_tuple v)"


section \<open>Cursors, results and calls\<close>

text \<open>
  A \<^verbatim>\<open>TokenIterator\<close> is a forward iterator into a token sequence: the model is the
  sequence together with an index. The iterator can be dereferenced and incremented
  only while the index is inside the sequence; the index equal to the length is the
  past-the-end iterator.
\<close>

record 'a cursor =
  stream :: "'a data list"
  pos :: nat

definition at_end :: "'a cursor \<Rightarrow> bool" where
  "at_end it = (pos it = length (stream it))"

definition dereferenceable :: "'a cursor \<Rightarrow> bool" where
  "dereferenceable it = (pos it < length (stream it))"

definition deref :: "'a cursor \<Rightarrow> 'a data" where
  "deref it = stream it ! pos it"

definition next_cursor :: "'a cursor \<Rightarrow> 'a cursor" where
  "next_cursor it = it\<lparr>pos := Suc (pos it)\<rparr>"

definition consumed :: "'a cursor \<Rightarrow> 'a cursor \<Rightarrow> int" where
  "consumed it it' = int (pos it') - int (pos it)"

text \<open>
  \<^verbatim>\<open>result_type\<close> is \<^verbatim>\<open>std::optional<std::pair<data, TokenIterator>>\<close>: the empty optional
  is the failure of the parse.

  A call of a combinator either returns such a result, or runs into undefined behaviour
  (dereferencing or incrementing the past-the-end iterator), or never returns (the loop
  of the repetition). The last is the value \<open>None\<close> of the outer option.
\<close>

type_synonym 'a result = "('a data \<times> 'a cursor) option"

datatype 'r outcome = Undefined_Behaviour | Returns 'r

type_synonym 'a combinator = "'a cursor \<Rightarrow> 'a result outcome option"

abbreviation Success :: "'a data \<Rightarrow> 'a cursor \<Rightarrow> 'a result outcome option" where
  "Success d it \<equiv> Some (Returns (Some (d, it)))"

abbreviation Failure :: "'a result outcome option" where
  "Failure \<equiv> Some (Returns None)"

abbreviation Undefined :: "'a result outcome option" where
  "Undefined \<equiv> Some Undefined_Behaviour"

abbreviation Never_Returns :: "'a result outcome option" where
  "Never_Returns \<equiv> None"

text \<open>\<^verbatim>\<open>make_result(data, it)\<close>.\<close>

definition make_result :: "'a data \<Rightarrow> 'a cursor \<Rightarrow> 'a result" where
  "make_result d it = Some (d, it)"


section \<open>Base combinators\<close>

text \<open>\<^verbatim>\<open>cmb_succ_fn\<close>: \<^verbatim>\<open>make_result(std::make_tuple(), it)\<close>.\<close>

definition cmb_succ_fn :: "'a combinator" where
  "cmb_succ_fn it = Some (Returns (make_result (Tuple []) it))"

text \<open>\<^verbatim>\<open>cmb_fail_fn1\<close>: the empty \<^verbatim>\<open>result_type<T>()\<close>; the iterator is not looked at.\<close>

definition cmb_fail_fn1 :: "'a combinator" where
  "cmb_fail_fn1 it = Some (Returns None)"

text \<open>
  \<^verbatim>\<open>cmb_one_fn\<close>: \<^verbatim>\<open>make_result(*it, std::next(it))\<close>, with no test of the iterator. Both
  \<^verbatim>\<open>*it\<close> and \<^verbatim>\<open>std::next(it)\<close> are undefined on an iterator that is not dereferenceable.
\<close>

definition cmb_one_fn :: "'a combinator" where
  "cmb_one_fn it =
     (if dereferenceable it then Some (Returns (make_result (deref it) (next_cursor it)))
      else Some Undefined_Behaviour)"


text \<open>
  What follows a call of a sub-parser: when the call does not return, or runs into
  undefined behaviour, so does the caller; otherwise the caller goes on with the returned
  result.
\<close>

definition after_call :: "'r outcome option \<Rightarrow> ('r \<Rightarrow> 's outcome option) \<Rightarrow> 's outcome option" where
  "after_call m k =
     (case m of
        None \<Rightarrow> None
      | Some Undefined_Behaviour \<Rightarrow> Some Undefined_Behaviour
      | Some (Returns r) \<Rightarrow> k r)"


section \<open>Composite combinators\<close>

text \<open>
  \<^verbatim>\<open>cmb_opt_fn\<close>: on success the data is wrapped by \<^verbatim>\<open>std::make_optional\<close> and the
  sub-parser's iterator is kept; otherwise the empty \<^verbatim>\<open>std::optional<data_type>\<close> is
  returned with the incoming iterator.
\<close>

definition cmb_opt_fn :: "'a combinator \<Rightarrow> 'a combinator" where
  "cmb_opt_fn Combinator it =
     after_call (Combinator it) (\<lambda>res.
       case res of
         Some (d, it') \<Rightarrow> Some (Returns (make_result (Optional (Some d)) it'))
       | None \<Rightarrow> Some (Returns (make_result (Optional None) it)))"

text \<open>
  \<^verbatim>\<open>cmb_seq_fn\<close> for the template arguments \<^verbatim>\<open>First, Rest...\<close>: with an empty \<^verbatim>\<open>Rest\<close> it
  is \<^verbatim>\<open>First()(it)\<close>; otherwise \<^verbatim>\<open>First\<close> runs, then the sequence of \<^verbatim>\<open>Rest...\<close> from
  \<^verbatim>\<open>first->second\<close>, and the two data are joined by \<^verbatim>\<open>concat\<close>. Every other path ends in
  \<^verbatim>\<open>fail<data_type>()(it)\<close>.
\<close>

fun cmb_seq_fn :: "'a combinator \<Rightarrow> 'a combinator list \<Rightarrow> 'a combinator" where
  "cmb_seq_fn First [] it = First it"
| "cmb_seq_fn First (Second # Rest) it =
     after_call (First it) (\<lambda>first.
       case first of
         Some (d1, it1) \<Rightarrow>
           after_call (cmb_seq_fn Second Rest it1) (\<lambda>rest.
             case rest of
               Some (d2, it2) \<Rightarrow> Some (Returns (make_result (concat_values [d1, d2]) it2))
             | None \<Rightarrow> cmb_fail_fn1 it)
       | None \<Rightarrow> cmb_fail_fn1 it)"

text \<open>
  \<^verbatim>\<open>cmb_alt_fn\<close> for \<^verbatim>\<open>First, Rest...\<close>: with an empty \<^verbatim>\<open>Rest\<close> it is \<^verbatim>\<open>First()(it)\<close>;
  otherwise the result of \<^verbatim>\<open>First\<close> is returned when it is a success, and the
  alternatives of \<^verbatim>\<open>Rest...\<close> run on the same \<^verbatim>\<open>it\<close> when it is not.
\<close>

fun cmb_alt_fn :: "'a combinator \<Rightarrow> 'a combinator list \<Rightarrow> 'a combinator" where
  "cmb_alt_fn First [] it = First it"
| "cmb_alt_fn First (Second # Rest) it =
     after_call (First it) (\<lambda>first.
       case first of
         Some r \<Rightarrow> Some (Returns first)
       | None \<Rightarrow> cmb_alt_fn Second Rest it)"

text \<open>
  \<^verbatim>\<open>cmb_rep_fn\<close>: the \<^verbatim>\<open>while (true)\<close> loop, with the local collection \<^verbatim>\<open>result\<close> and the
  iterator \<^verbatim>\<open>it\<close> as its state. The loop has no other exit than the failure of the
  sub-parser, so the function is partial: \<open>None\<close> stands for a loop that runs forever
  (the collection grows by one element in every round; the model puts no bound on it).
\<close>

partial_function (option) rep_loop ::
  "'a combinator \<Rightarrow> 'a data list \<Rightarrow> 'a cursor \<Rightarrow> 'a result outcome option" where
  "rep_loop Combinator result it =
     (case Combinator it of
        None \<Rightarrow> None
      | Some Undefined_Behaviour \<Rightarrow> Some Undefined_Behaviour
      | Some (Returns None) \<Rightarrow> Some (Returns (make_result (Collection result) it))
      | Some (Returns (Some (d, it'))) \<Rightarrow> rep_loop Combinator (result @ [d]) it')"

declare rep_loop.simps [code]

definition cmb_rep_fn :: "'a combinator \<Rightarrow> 'a combinator" where
  "cmb_rep_fn Combinator it = rep_loop Combinator [] it"

text \<open>\<^verbatim>\<open>empty()\<close> of the collection a repetition returns.\<close>

fun empty_collection :: "'a data \<Rightarrow> bool" where
  "empty_collection (Collection ds) = (ds = [])"
| "empty_collection d = False"

text \<open>
  \<^verbatim>\<open>cmb_rep1_fn\<close>: runs \<^verbatim>\<open>cmb_rep_fn\<close> and turns an empty collection into the failure.
  \<^verbatim>\<open>res->first\<close> is read with no test of \<^verbatim>\<open>res\<close>, which is undefined on an empty optional.
\<close>

definition cmb_rep1_fn :: "'a combinator \<Rightarrow> 'a combinator" where
  "cmb_rep1_fn Combinator it =
     after_call (cmb_rep_fn Combinator it) (\<lambda>res.
       case res of
         None \<Rightarrow> Some Undefined_Behaviour
       | Some (d, it') \<Rightarrow> if empty_collection d then Some (Returns None) else Some (Returns res))"


section \<open>Transformations\<close>

text \<open>
  A mapper is called by \<^verbatim>\<open>std::apply\<close> on the components of \<^verbatim>\<open>as_tuple(res->first)\<close>.
  \<^verbatim>\<open>cmb_map_fn\<close> chooses its branch by the static return type of the mapper
  (\<^verbatim>\<open>is_maybe_v<transform_result>\<close>): a mapper that returns a \<^verbatim>\<open>maybe<T>\<close> can fail, any
  other return type (a \<^verbatim>\<open>std::optional\<close> too) is a plain value.
\<close>

datatype 'a mapper =
    Total "'a data list \<Rightarrow> 'a data"
  | Partial "'a data list \<Rightarrow> 'a data option"

definition cmb_map_fn :: "'a combinator \<Rightarrow> 'a mapper \<Rightarrow> 'a combinator" where
  "cmb_map_fn Combinator Mapper it =
     (case Mapper of
        Partial f \<Rightarrow>
          after_call (Combinator it) (\<lambda>res.
            case res of
              Some (d, it') \<Rightarrow>
                (case f (as_tuple d) of
                   Some transformed \<Rightarrow> Some (Returns (make_result (unwrap_tuple transformed) it'))
                 | None \<Rightarrow> cmb_fail_fn1 it)
            | None \<Rightarrow> cmb_fail_fn1 it)
      | Total f \<Rightarrow>
          after_call (Combinator it) (\<lambda>res.
            case res of
              Some (d, it') \<Rightarrow> Some (Returns (make_result (unwrap_tuple (f (as_tuple d))) it'))
            | None \<Rightarrow> cmb_fail_fn1 it))"

text \<open>
  \<^verbatim>\<open>filter_impl\<close>: a mapper that can fail; it returns \<^verbatim>\<open>tuple_of\<close> its arguments when the
  predicate holds of them and the empty \<^verbatim>\<open>maybe\<close> otherwise.
\<close>

definition filter_impl :: "('a data list \<Rightarrow> bool) \<Rightarrow> 'a mapper" where
  "filter_impl Predicate =
     Partial (\<lambda>args. if Predicate args then Some (tuple_of args) else None)"

text \<open>
  \<^verbatim>\<open>foldl_impl\<close>: the loop from \<^verbatim>\<open>std::cbegin(rest)\<close> to \<^verbatim>\<open>std::cend(rest)\<close> with
  \<^verbatim>\<open>first = Folder()(std::move(first), *it)\<close>, returning \<^verbatim>\<open>first\<close>.
\<close>

fun foldl_impl :: "('b \<Rightarrow> 'e \<Rightarrow> 'b) \<Rightarrow> 'b \<Rightarrow> 'e list \<Rightarrow> 'b" where
  "foldl_impl Folder first [] = first"
| "foldl_impl Folder first (e # rest) = foldl_impl Folder (Folder first e) rest"

text \<open>
  \<^verbatim>\<open>foldr_impl\<close>: the loop from \<^verbatim>\<open>std::crbegin(rest)\<close> to \<^verbatim>\<open>std::crend(rest)\<close>, that is over
  the elements of \<^verbatim>\<open>rest\<close> from the last to the first, with
  \<^verbatim>\<open>first = Folder()(*it, std::move(first))\<close>, returning \<^verbatim>\<open>first\<close>.
\<close>

fun foldr_loop :: "('e \<Rightarrow> 'b \<Rightarrow> 'b) \<Rightarrow> 'e list \<Rightarrow> 'b \<Rightarrow> 'b" where
  "foldr_loop Folder [] first = first"
| "foldr_loop Folder (e # reversed) first = foldr_loop Folder reversed (Folder e first)"

definition foldr_impl :: "('e \<Rightarrow> 'b \<Rightarrow> 'b) \<Rightarrow> 'e list \<Rightarrow> 'b \<Rightarrow> 'b" where
  "foldr_impl Folder rest first = foldr_loop Folder (rev rest) first"


section \<open>Reference notions\<close>

text \<open>
  The run of a parser from a cursor: \<open>rep_run P it ds it'\<close> holds when the successive
  applications of \<open>P\<close>, each from the cursor the one before returned, succeed with the
  values \<open>ds\<close> in this order, and the next application, at \<open>it'\<close>, returns the failure.
\<close>

inductive rep_run :: "'a combinator \<Rightarrow> 'a cursor \<Rightarrow> 'a data list \<Rightarrow> 'a cursor \<Rightarrow> bool" where
  rep_run_stop: "P it = Failure \<Longrightarrow> rep_run P it [] it"
| rep_run_step: "P it = Success d it1 \<Longrightarrow> rep_run P it1 ds it' \<Longrightarrow> rep_run P it (d # ds) it'"

code_pred (modes: i \<Rightarrow> i \<Rightarrow> o \<Rightarrow> o \<Rightarrow> bool, i \<Rightarrow> i \<Rightarrow> i \<Rightarrow> i \<Rightarrow> bool) rep_run .

text \<open>A value put in front of the values of a collection.\<close>

fun cons_collection :: "'a data \<Rightarrow> 'a data \<Rightarrow> 'a data" where
  "cons_collection d (Collection ds) = Collection (d # ds)"
| "cons_collection d v = v"

text \<open>
  The one-or-more repetition in the words of its description: the parser is applied
  once, then the zero-or-more repetition runs from the cursor it returned, and the first
  value is put in front of the collected ones; the failure of the first application is
  the failure of the whole.
\<close>

definition rep1_spec :: "'a combinator \<Rightarrow> 'a combinator" where
  "rep1_spec P it =
     after_call (P it) (\<lambda>first.
       case first of
         None \<Rightarrow> Some (Returns None)
       | Some (d, it1) \<Rightarrow>
           after_call (cmb_rep_fn P it1) (\<lambda>rest.
             case rest of
               None \<Rightarrow> Some (Returns None)
             | Some (ds, it2) \<Rightarrow> Some (Returns (Some (cons_collection d ds, it2)))))"


section \<open>An example grammar\<close>

text \<open>
  The token stream \<^verbatim>\<open>'1' '+' '2'\<close> and the small parsers used to run the combinators on
  it: a digit and an operator are \<^verbatim>\<open>one\<close> mapped through a filter, and the mapper
  \<open>sum_digits\<close> adds the values of the digits among its arguments.
\<close>

datatype example_atom = Character char | Number nat

definition example_stream :: "example_atom data list" where
  "example_stream = [Atom (Character CHR ''1''), Atom (Character CHR ''+''), Atom (Character CHR ''2'')]"

definition idx :: "nat \<Rightarrow> example_atom cursor" where
  "idx n = \<lparr>stream = example_stream, pos = n\<rparr>"

fun is_digit :: "example_atom data list \<Rightarrow> bool" where
  "is_digit [Atom (Character ch)] = (ch \<in> set ''0123456789'')"
| "is_digit args = False"

fun is_op :: "example_atom data list \<Rightarrow> bool" where
  "is_op [Atom (Character ch)] = (ch \<in> set ''+-*/'')"
| "is_op args = False"

definition digit :: "example_atom combinator" where
  "digit = cmb_map_fn cmb_one_fn (filter_impl is_digit)"

definition operator :: "example_atom combinator" where
  "operator = cmb_map_fn cmb_one_fn (filter_impl is_op)"

fun digit_value :: "example_atom data \<Rightarrow> nat" where
  "digit_value (Atom (Character ch)) =
     (if ch \<in> set ''0123456789'' then of_char ch - of_char CHR ''0'' else 0)"
| "digit_value v = 0"

definition sum_digits :: "example_atom mapper" where
  "sum_digits = Total (\<lambda>args. Atom (Number (sum_list (map digit_value args))))"

text \<open>
  Two more mappers: \<^verbatim>\<open>std::make_tuple\<close> of the arguments, and the one-element tuple of
  that tuple.
\<close>

definition make_tuple :: "'a data list \<Rightarrow> 'a data" where
  "make_tuple args = Tuple args"

definition nested_tuple :: "'a data list \<Rightarrow> 'a data" where
  "nested_tuple args = Tuple [make_tuple args]"


section \<open>Properties\<close>

subsection \<open>Calls and the example stream\<close>

lemma after_call_None [simp]: "after_call None k = None"
  and after_call_Undefined [simp]: "after_call (Some Undefined_Behaviour) k = Some Undefined_Behaviour"
  and after_call_Returns [simp]: "after_call (Some (Returns r)) k = k r"
  by (simp_all add: after_call_def)

lemma after_call_eq_Some_Returns:
  "after_call m k = Some (Returns x) \<longleftrightarrow> (\<exists>r. m = Some (Returns r) \<and> k r = Some (Returns x))"
  by (auto simp: after_call_def split: option.splits outcome.splits)


lemma cmb_one_fn_inside:
  "pos it < length (stream it) \<Longrightarrow>
     cmb_one_fn it = Success (stream it ! pos it) (it\<lparr>pos := Suc (pos it)\<rparr>)"
  by (simp add: cmb_one_fn_def dereferenceable_def make_result_def deref_def next_cursor_def)

lemma cmb_one_fn_outside:
  "\<not> pos it < length (stream it) \<Longrightarrow> cmb_one_fn it = Undefined"
  by (simp add: cmb_one_fn_def dereferenceable_def)

lemma one_idx:
  "n < 3 \<Longrightarrow> cmb_one_fn (idx n) = Success (example_stream ! n) (idx (Suc n))"
  by (simp add: cmb_one_fn_inside idx_def example_stream_def)

lemma digit_idx0: "digit (idx 0) = Success (Atom (Character CHR ''1'')) (idx 1)"
  by (simp add: digit_def cmb_map_fn_def filter_impl_def one_idx
      example_stream_def make_result_def tuple_of_def)

lemma digit_idx1: "digit (idx 1) = Failure"
  by (simp add: digit_def cmb_map_fn_def filter_impl_def one_idx
      example_stream_def cmb_fail_fn1_def)

lemma operator_idx1: "operator (idx 1) = Success (Atom (Character CHR ''+'')) (idx 2)"
  by (simp add: operator_def cmb_map_fn_def filter_impl_def one_idx
      example_stream_def make_result_def tuple_of_def numeral_2_eq_2)



subsection \<open>Auxiliary facts on the shape of values\<close>

lemma unwrap_tuple_other: "(\<forall>x. v \<noteq> Tuple [x]) \<Longrightarrow> unwrap_tuple v = v"
  by (cases v rule: unwrap_tuple.cases) auto

lemma unwrap_tuple_not_single: "unwrap_tuple v \<noteq> Tuple [x]"
  by (induction v rule: unwrap_tuple.induct) auto

lemma unwrap_tuple_long: "length xs \<noteq> 1 \<Longrightarrow> unwrap_tuple (Tuple xs) = Tuple xs"
  by (rule unwrap_tuple_other) auto

lemma concat_values_two:
  "concat_values [u, w] = unwrap_tuple (Tuple (as_tuple u @ as_tuple w))"
  by (simp add: concat_values_def tuple_cat_def)

lemma concat_values_one: "concat_values [v] = unwrap_tuple (Tuple (as_tuple v))"
  by (simp add: concat_values_def tuple_cat_def)

lemma single_hd: "length xs = 1 \<Longrightarrow> xs = [hd xs]"
  by (cases xs) auto

lemma as_tuple_cases: "as_tuple v = [v] \<or> v = Tuple (as_tuple v)"
  by (cases v) auto

lemma as_tuple_single: "(\<forall>ys. v \<noteq> Tuple ys) \<Longrightarrow> as_tuple (Tuple [v]) = as_tuple v"
  by (cases v) auto

lemma concat_values_single:
  "(\<forall>ys. v \<noteq> Tuple ys) \<Longrightarrow> concat_values (us @ Tuple [v] # ws) = concat_values (us @ v # ws)"
  by (simp add: concat_values_def tuple_cat_def as_tuple_single del: as_tuple.simps)

lemma concat_values_not_single: "concat_values args \<noteq> Tuple [x]"
  by (simp add: concat_values_def unwrap_tuple_not_single)

lemma as_tuple_bare: "(\<forall>x. u \<noteq> Tuple [x]) \<Longrightarrow> as_tuple u = [x] \<Longrightarrow> u = x \<and> (\<forall>ys. x \<noteq> Tuple ys)"
  by (cases u) auto

lemma arity_concat_values_normal:
  assumes "\<forall>x. u \<noteq> Tuple [x]" and "\<forall>x. w \<noteq> Tuple [x]"
  shows "arity (concat_values [u, w]) = arity u + arity w"
proof (cases "arity u + arity w = 1")
  case False
  then show ?thesis
    by (simp add: concat_values_two arity_def unwrap_tuple_long)
next
  case True
  then have "as_tuple u @ as_tuple w = [hd (as_tuple u @ as_tuple w)]"
    by (intro single_hd) (simp add: arity_def)
  then obtain x where x: "as_tuple u @ as_tuple w = [x]" ..
  then have "(as_tuple u = [x] \<and> as_tuple w = []) \<or> (as_tuple u = [] \<and> as_tuple w = [x])"
    by (auto simp: append_eq_Cons_conv)
  then have "\<forall>ys. x \<noteq> Tuple ys"
    using assms as_tuple_bare [of u x] as_tuple_bare [of w x] by blast
  then have "unwrap_tuple x = x" "arity x = 1"
    by (cases x; simp add: arity_def)+
  with x True show ?thesis by (simp add: concat_values_two)
qed


subsection \<open>The base combinators\<close>

text \<open>
  C10: at every cursor \<^verbatim>\<open>succ\<close> returns the success whose value is the empty tuple and
  whose cursor is the incoming one, so it consumes nothing; at every cursor \<^verbatim>\<open>fail\<close>
  returns the failure, which carries no cursor.
\<close>

theorem succ_and_fail:
  "cmb_succ_fn it = Success (Tuple []) it \<and> consumed it it = 0 \<and> cmb_fail_fn1 it = Failure"
  by (simp add: cmb_succ_fn_def cmb_fail_fn1_def make_result_def consumed_def)

text \<open>
  C1, at the cursor past the last token of \<^verbatim>\<open>'1' '+' '2'\<close>: the claim asks for the failure
  there. \<^verbatim>\<open>cmb_one_fn\<close> does not test its iterator: it dereferences and increments the
  past-the-end iterator, which is undefined behaviour and not the empty result.
\<close>

theorem one_at_end_of_stream:
  "at_end (idx 3) \<and> cmb_one_fn (idx 3) = Undefined \<and> cmb_one_fn (idx 3) \<noteq> Failure"
  by (simp add: at_end_def cmb_one_fn_outside idx_def example_stream_def)


subsection \<open>Sequence\<close>









subsection \<open>Alternative\<close>

lemma cmb_alt_fn_dropWhile:
  "cmb_alt_fn First Rest c =
     (case dropWhile (\<lambda>P. P c = Failure) (First # Rest) of [] \<Rightarrow> Failure | P # _ \<Rightarrow> P c)"
proof (induction First Rest c rule: cmb_alt_fn.induct)
  case (1 First it)
  then show ?case by simp
next
  case (2 First Second Rest it)
  show ?case
  proof (cases "First it")
    case None
    then show ?thesis by simp
  next
    case (Some out)
    show ?thesis
    proof (cases out)
      case Undefined_Behaviour
      with Some show ?thesis by simp
    next
      case (Returns r)
      show ?thesis
      proof (cases r)
        case None
        with Some Returns 2 show ?thesis by simp
      next
        case (Some a)
        with \<open>First it = Some out\<close> Returns show ?thesis by simp
      qed
    qed
  qed
qed

lemma dropWhile_first:
  assumes "i < length Ps" and "\<not> Q (Ps ! i)" and "\<forall>j<i. Q (Ps ! j)"
  shows "dropWhile Q Ps = drop i Ps"
  using assms
proof (induction Ps arbitrary: i)
  case Nil
  then show ?case by simp
next
  case (Cons P Ps)
  show ?case
  proof (cases i)
    case 0
    with Cons.prems show ?thesis by simp
  next
    case (Suc k)
    with Cons.prems have "Q P" by auto
    moreover have "dropWhile Q Ps = drop k Ps"
      using Cons.prems Suc by (intro Cons.IH) auto
    ultimately show ?thesis using Suc by simp
  qed
qed

lemma dropWhile_index:
  assumes "dropWhile Q Ps = P # Qs"
  shows "\<exists>i<length Ps. Ps ! i = P \<and> \<not> Q P \<and> (\<forall>j<i. Q (Ps ! j))"
proof -
  let ?i = "length (takeWhile Q Ps)"
  have "Ps = takeWhile Q Ps @ P # Qs" using assms by (metis takeWhile_dropWhile_id)
  then have "?i < length Ps" "Ps ! ?i = P"
    by (metis length_append length_Cons less_add_Suc1 add_Suc_right, metis nth_append_length)
  moreover have "\<not> Q P" using assms by (metis hd_dropWhile list.sel(1) list.distinct(1))
  moreover have "\<forall>j<?i. Q (Ps ! j)"
    by (metis nth_mem set_takeWhileD takeWhile_nth length_takeWhile_le less_le_trans)
  ultimately show ?thesis by blast
qed


text \<open>
  C3: every branch is applied to the incoming cursor. The alternative returns what the
  first branch that does not fail returns, and the failure when every branch fails. So
  when branch \<open>i\<close> succeeds and all branches before it fail, the alternative returns the
  value and the cursor of branch \<open>i\<close>; a success of the alternative is the success of such
  a branch; and the alternative fails exactly when all branches fail.
\<close>

theorem alternative_first_success:
  "cmb_alt_fn First Rest c =
     (case dropWhile (\<lambda>P. P c = Failure) (First # Rest) of [] \<Rightarrow> Failure | P # _ \<Rightarrow> P c) \<and>
   (\<forall>i d c'. i < length (First # Rest) \<and> ((First # Rest) ! i) c = Success d c' \<and>
        (\<forall>j<i. ((First # Rest) ! j) c = Failure) \<longrightarrow> cmb_alt_fn First Rest c = Success d c') \<and>
   (\<forall>d c'. cmb_alt_fn First Rest c = Success d c' \<longrightarrow>
        (\<exists>i<length (First # Rest). ((First # Rest) ! i) c = Success d c' \<and>
           (\<forall>j<i. ((First # Rest) ! j) c = Failure))) \<and>
   (cmb_alt_fn First Rest c = Failure \<longleftrightarrow> (\<forall>P \<in> set (First # Rest). P c = Failure))"
proof (intro conjI allI impI)
  let ?Ps = "First # Rest" and ?Q = "\<lambda>P. P c = Failure"
  show eq: "cmb_alt_fn First Rest c = (case dropWhile ?Q ?Ps of [] \<Rightarrow> Failure | P # _ \<Rightarrow> P c)"
    by (rule cmb_alt_fn_dropWhile)
  show "cmb_alt_fn First Rest c = Success d c'"
    if "i < length ?Ps \<and> (?Ps ! i) c = Success d c' \<and> (\<forall>j<i. (?Ps ! j) c = Failure)" for i d c'
  proof -
    from that have "dropWhile ?Q ?Ps = drop i ?Ps"
      by (intro dropWhile_first) auto
    also have "\<dots> = ?Ps ! i # drop (Suc i) ?Ps"
      using that by (metis Cons_nth_drop_Suc)
    finally show ?thesis using that by (simp add: eq)
  qed
  show "\<exists>i<length ?Ps. (?Ps ! i) c = Success d c' \<and> (\<forall>j<i. (?Ps ! j) c = Failure)"
    if "cmb_alt_fn First Rest c = Success d c'" for d c'
  proof (cases "dropWhile ?Q ?Ps")
    case Nil
    with that eq show ?thesis by simp
  next
    case (Cons P Qs)
    with that eq have "P c = Success d c'" by simp
    with dropWhile_index [OF Cons] show ?thesis by metis
  qed
  show "cmb_alt_fn First Rest c = Failure \<longleftrightarrow> (\<forall>P \<in> set ?Ps. P c = Failure)"
  proof (cases "dropWhile ?Q ?Ps")
    case Nil
    have "cmb_alt_fn First Rest c = Failure"
      by (subst eq, subst Nil) simp
    moreover have "\<forall>P \<in> set ?Ps. P c = Failure"
      using Nil by (simp only: dropWhile_eq_Nil_conv)
    ultimately show ?thesis by blast
  next
    case (Cons P Qs)
    have "cmb_alt_fn First Rest c = P c"
      by (subst eq, subst Cons) simp
    moreover from dropWhile_index [OF Cons] have "P \<in> set ?Ps" "P c \<noteq> Failure"
      by (metis nth_mem, blast)
    ultimately show ?thesis by metis
  qed
qed


theorem alternative_first_success_witness:
  "digit (idx 1) = Failure \<and> operator (idx 1) = Success (Atom (Character CHR ''+'')) (idx 2) \<and>
   cmb_alt_fn digit [operator] (idx 1) = Success (Atom (Character CHR ''+'')) (idx 2) \<and>
   cmb_alt_fn digit [digit] (idx 1) = Failure"
proof -
  note first = alternative_first_success [of digit "[operator]" "idx 1",
      THEN conjunct2, THEN conjunct1, rule_format, of 1]
  have "cmb_alt_fn digit [operator] (idx 1) = Success (Atom (Character CHR ''+'')) (idx 2)"
  proof (rule first, intro conjI allI impI)
    show "1 < length [digit, operator]" by simp
    show "([digit, operator] ! 1) (idx 1) = Success (Atom (Character CHR ''+'')) (idx 2)"
      using operator_idx1 by simp
    show "([digit, operator] ! j) (idx 1) = Failure" if "j < 1" for j
      using that digit_idx1 by simp
  qed
  moreover have "cmb_alt_fn digit [digit] (idx 1) = Failure"
  proof -
    have "\<forall>P \<in> set [digit, digit]. P (idx 1) = Failure"
      using digit_idx1 by simp
    then show ?thesis
      by (simp only: alternative_first_success [of digit "[digit]" "idx 1",
          THEN conjunct2, THEN conjunct2, THEN conjunct2])
  qed
  ultimately show ?thesis using digit_idx1 operator_idx1 by (intro conjI)
qed


subsection \<open>Optional\<close>

lemma cmb_opt_fn_cases:
  "cmb_opt_fn P c =
     (case P c of
        None \<Rightarrow> None
      | Some Undefined_Behaviour \<Rightarrow> Undefined
      | Some (Returns None) \<Rightarrow> Success (Optional None) c
      | Some (Returns (Some (d, c'))) \<Rightarrow> Success (Optional (Some d)) c')"
  by (simp add: cmb_opt_fn_def after_call_def make_result_def split: option.split outcome.split)


text \<open>
  C4: the optional never returns the failure. When the parser succeeds, the result is its
  value inside a present optional together with its cursor; when the parser fails, the
  result is the absent optional together with the incoming cursor. The optional returns
  a result exactly when the parser returns one. An optional value is not a tuple: neither
  \<^verbatim>\<open>unwrap_tuple\<close> nor \<^verbatim>\<open>concat\<close> takes the wrapper off.
\<close>

theorem optional_never_fails:
  "cmb_opt_fn P c \<noteq> Failure \<and>
   (\<forall>d c'. P c = Success d c' \<longrightarrow> cmb_opt_fn P c = Success (Optional (Some d)) c') \<and>
   (P c = Failure \<longrightarrow> cmb_opt_fn P c = Success (Optional None) c) \<and>
   ((\<exists>d c'. cmb_opt_fn P c = Success d c') \<longleftrightarrow> (\<exists>r. P c = Some (Returns r))) \<and>
   unwrap_tuple (Optional x) = Optional x \<and>
   concat_values [Optional x] = Optional x"
proof (intro conjI)
  show "cmb_opt_fn P c \<noteq> Failure"
    by (simp add: cmb_opt_fn_cases split: option.split outcome.split)
  show "\<forall>d c'. P c = Success d c' \<longrightarrow> cmb_opt_fn P c = Success (Optional (Some d)) c'"
    by (simp add: cmb_opt_fn_cases)
  show "P c = Failure \<longrightarrow> cmb_opt_fn P c = Success (Optional None) c"
    by (simp add: cmb_opt_fn_cases)
  show "(\<exists>d c'. cmb_opt_fn P c = Success d c') \<longleftrightarrow> (\<exists>r. P c = Some (Returns r))"
    by (simp add: cmb_opt_fn_cases split: option.split outcome.split)
  show "unwrap_tuple (Optional x) = Optional x" by simp
  show "concat_values [Optional x] = Optional x"
    by (simp add: concat_values_def tuple_cat_def)
qed


theorem optional_never_fails_witness:
  "digit (idx 0) = Success (Atom (Character CHR ''1'')) (idx 1) \<and>
   cmb_opt_fn digit (idx 0) = Success (Optional (Some (Atom (Character CHR ''1'')))) (idx 1) \<and>
   digit (idx 1) = Failure \<and>
   cmb_opt_fn digit (idx 1) = Success (Optional None) (idx 1)"
proof -
  note present = optional_never_fails [of digit "idx 0", THEN conjunct2, THEN conjunct1, rule_format]
  note absent = optional_never_fails [of digit "idx 1", THEN conjunct2, THEN conjunct2,
      THEN conjunct1, rule_format]
  show ?thesis
    using digit_idx0 digit_idx1 present [OF digit_idx0] absent [OF digit_idx1] by (intro conjI)
qed


subsection \<open>Repetition\<close>

lemma rep_loop_of_run:
  "rep_run P it ds it' \<Longrightarrow> rep_loop P acc it = Success (Collection (acc @ ds)) it'"
proof (induction arbitrary: acc rule: rep_run.induct)
  case (rep_run_stop P it)
  then show ?case by (subst rep_loop.simps) (simp add: make_result_def)
next
  case (rep_run_step P it d it1 ds it')
  have "rep_loop P acc it = rep_loop P (acc @ [d]) it1"
    using rep_run_step.hyps(1) by (subst rep_loop.simps) simp
  then show ?case using rep_run_step.IH [of "acc @ [d]"] by simp
qed

lemma rep_loop_transfer:
  assumes "rep_loop P acc it = Some out"
  shows "(out = Undefined_Behaviour \<and> (\<forall>acc'. rep_loop P acc' it = Undefined)) \<or>
     (\<exists>ds it'. out = Returns (Some (Collection (acc @ ds), it')) \<and> rep_run P it ds it')"
proof (rule rep_loop.raw_induct [where P = "\<lambda>P acc it out.
     (out = Undefined_Behaviour \<and> (\<forall>acc'. rep_loop P acc' it = Undefined)) \<or>
     (\<exists>ds it'. out = Returns (Some (Collection (acc @ ds), it')) \<and> rep_run P it ds it')",
     OF _ assms])
  fix loop :: "'a combinator \<Rightarrow> 'a data list \<Rightarrow> 'a cursor \<Rightarrow> 'a result outcome option"
  fix P acc it out
  assume IH: "\<And>P acc it out. loop P acc it = Some out \<Longrightarrow>
     (out = Undefined_Behaviour \<and> (\<forall>acc'. rep_loop P acc' it = Undefined)) \<or>
     (\<exists>ds it'. out = Returns (Some (Collection (acc @ ds), it')) \<and> rep_run P it ds it')"
  assume body: "(case P it of
        None \<Rightarrow> None
      | Some Undefined_Behaviour \<Rightarrow> Some Undefined_Behaviour
      | Some (Returns None) \<Rightarrow> Some (Returns (make_result (Collection acc) it))
      | Some (Returns (Some (d, it'))) \<Rightarrow> loop P (acc @ [d]) it') = Some out"
  show "(out = Undefined_Behaviour \<and> (\<forall>acc'. rep_loop P acc' it = Undefined)) \<or>
     (\<exists>ds it'. out = Returns (Some (Collection (acc @ ds), it')) \<and> rep_run P it ds it')"
  proof (cases "P it")
    case None
    with body show ?thesis by simp
  next
    case (Some o1)
    show ?thesis
    proof (cases o1)
      case Undefined_Behaviour
      with Some body have "out = Undefined_Behaviour" by simp
      moreover have "rep_loop P acc' it = Undefined" for acc'
        using Some Undefined_Behaviour by (subst rep_loop.simps) simp
      ultimately show ?thesis by blast
    next
      case (Returns res)
      show ?thesis
      proof (cases res)
        case None
        with Some Returns body have "out = Returns (Some (Collection (acc @ []), it))"
          by (simp add: make_result_def)
        moreover have "rep_run P it [] it"
          using Some Returns None by (intro rep_run_stop) simp
        ultimately show ?thesis by blast
      next
        case (Some di)
        obtain d it1 where di: "di = (d, it1)" by (cases di)
        with \<open>P it = Some o1\<close> Returns Some have step: "P it = Success d it1" by simp
        with body have "loop P (acc @ [d]) it1 = Some out" by simp
        from IH [OF this] show ?thesis
        proof
          assume u: "out = Undefined_Behaviour \<and> (\<forall>acc'. rep_loop P acc' it1 = Undefined)"
          have "rep_loop P acc' it = Undefined" for acc'
            using step u by (subst rep_loop.simps) simp
          with u show ?thesis by blast
        next
          assume "\<exists>ds it'. out = Returns (Some (Collection ((acc @ [d]) @ ds), it')) \<and> rep_run P it1 ds it'"
          then obtain ds it' where "out = Returns (Some (Collection ((acc @ [d]) @ ds), it'))"
            "rep_run P it1 ds it'" by blast
          then have "out = Returns (Some (Collection (acc @ d # ds), it'))" "rep_run P it (d # ds) it'"
            using step by (simp_all add: rep_run_step)
          then show ?thesis by blast
        qed
      qed
    qed
  qed
qed

lemma rep_loop_None_transfer:
  assumes "rep_loop P acc it = None"
  shows "rep_loop P acc' it = None"
proof (rule ccontr)
  assume "rep_loop P acc' it \<noteq> None"
  then obtain out where out: "rep_loop P acc' it = Some out" by blast
  from rep_loop_transfer [OF this] have "rep_loop P acc it \<noteq> None"
    by (auto dest: rep_loop_of_run [where acc = acc])
  with assms show False by simp
qed

lemma rep_loop_stuck:
  assumes "rep_loop P acc it = Some out"
  shows "\<not> (\<exists>d. P it = Success d it)"
proof (rule rep_loop.raw_induct [where P = "\<lambda>P acc it out. \<not> (\<exists>d. P it = Success d it)",
      OF _ assms])
  fix loop :: "'a combinator \<Rightarrow> 'a data list \<Rightarrow> 'a cursor \<Rightarrow> 'a result outcome option"
  fix P acc it out
  assume IH: "\<And>P acc it out. loop P acc it = Some out \<Longrightarrow> \<not> (\<exists>d. P it = Success d it)"
  assume body: "(case P it of
        None \<Rightarrow> None
      | Some Undefined_Behaviour \<Rightarrow> Some Undefined_Behaviour
      | Some (Returns None) \<Rightarrow> Some (Returns (make_result (Collection acc) it))
      | Some (Returns (Some (d, it'))) \<Rightarrow> loop P (acc @ [d]) it') = Some out"
  show "\<not> (\<exists>d. P it = Success d it)"
  proof
    assume "\<exists>d. P it = Success d it"
    then obtain d where d: "P it = Success d it" ..
    with body have "loop P (acc @ [d]) it = Some out" by simp
    from IH [OF this] d show False by blast
  qed
qed

lemma cmb_rep_fn_no_progress:
  "P it = Success d it \<Longrightarrow> cmb_rep_fn P it = Never_Returns"
  unfolding cmb_rep_fn_def using rep_loop_stuck [of P "[]" it] by (cases "rep_loop P [] it") auto

lemma cmb_rep_fn_of_run:
  "rep_run P it ds it' \<Longrightarrow> cmb_rep_fn P it = Success (Collection ds) it'"
  unfolding cmb_rep_fn_def using rep_loop_of_run [of P it ds it' "[]"] by simp

lemma cmb_rep_fn_returns:
  assumes "cmb_rep_fn P it = Some (Returns r)"
  shows "\<exists>ds it'. r = Some (Collection ds, it') \<and> rep_run P it ds it'"
  using rep_loop_transfer [of P "[]" it "Returns r"] assms unfolding cmb_rep_fn_def by simp

lemma rep_run_Nil: "rep_run P it [] it' \<longleftrightarrow> P it = Failure \<and> it' = it"
  by (auto elim: rep_run.cases intro: rep_run_stop)

lemma rep_run_Cons:
  "rep_run P it (d # ds) it' \<longleftrightarrow> (\<exists>it1. P it = Success d it1 \<and> rep_run P it1 ds it')"
  by (auto elim: rep_run.cases intro: rep_run_step)

lemma rep_run_ends_in_failure: "rep_run P c ds c' \<Longrightarrow> P c' = Failure"
  by (induction rule: rep_run.induct) simp_all

lemma rep_run_last_success:
  "rep_run P c ds c' \<Longrightarrow> ds \<noteq> [] \<Longrightarrow> \<exists>cl. P cl = Success (last ds) c'"
proof (induction rule: rep_run.induct)
  case (rep_run_stop P it)
  then show ?case by simp
next
  case (rep_run_step P it d it1 ds it')
  show ?case
  proof (cases ds)
    case Nil
    with rep_run_step.hyps(2) have "it' = it1" by (simp add: rep_run_Nil)
    with rep_run_step.hyps(1) Nil show ?thesis by auto
  next
    case (Cons e es)
    with rep_run_step.IH show ?thesis by simp
  qed
qed

lemma rep_run_digit_idx0: "rep_run digit (idx 0) [Atom (Character CHR ''1'')] (idx 1)"
proof (rule rep_run_step)
  show "digit (idx 0) = Success (Atom (Character CHR ''1'')) (idx 1)" by (rule digit_idx0)
  show "rep_run digit (idx 1) [] (idx 1)" by (rule rep_run_stop) (rule digit_idx1)
qed

lemma cmb_rep_fn_unfold:
  "cmb_rep_fn P it =
     (case P it of
        None \<Rightarrow> None
      | Some Undefined_Behaviour \<Rightarrow> Undefined
      | Some (Returns None) \<Rightarrow> Success (Collection []) it
      | Some (Returns (Some (d, it1))) \<Rightarrow> rep_loop P [d] it1)"
  unfolding cmb_rep_fn_def
  by (subst rep_loop.simps) (simp add: make_result_def split: option.split outcome.split)

text \<open>
  The zero-or-more repetition of \<^verbatim>\<open>one\<close> takes all three tokens and then applies \<^verbatim>\<open>one\<close> to
  the past-the-end iterator.
\<close>

lemma one_idx3: "cmb_one_fn (idx 3) = Undefined"
  by (simp add: cmb_one_fn_outside idx_def example_stream_def)

lemma repeat0_of_one_runs_off_the_end: "cmb_rep_fn cmb_one_fn (idx 0) = Undefined"
proof -
  have "cmb_rep_fn cmb_one_fn (idx 3) = Undefined"
    by (simp add: cmb_rep_fn_unfold one_idx3)
  moreover have "rep_loop cmb_one_fn acc (idx n) = rep_loop cmb_one_fn (acc @ [example_stream ! n]) (idx (Suc n))"
    if "n < 3" for n acc
    using that by (subst rep_loop.simps) (simp add: one_idx)
  moreover have "rep_loop cmb_one_fn acc (idx 3) = Undefined" for acc
    by (subst rep_loop.simps) (simp add: one_idx3)
  ultimately show ?thesis
    by (simp add: cmb_rep_fn_def numeral_3_eq_3)
qed

lemma cmb_rep1_fn_refines: "cmb_rep1_fn P c = rep1_spec P c"
proof (cases "P c")
  case None
  then show ?thesis by (simp add: cmb_rep1_fn_def rep1_spec_def cmb_rep_fn_unfold)
next
  case (Some out)
  show ?thesis
  proof (cases out)
    case Undefined_Behaviour
    with Some show ?thesis by (simp add: cmb_rep1_fn_def rep1_spec_def cmb_rep_fn_unfold)
  next
    case (Returns res)
    show ?thesis
    proof (cases res)
      case None
      with Some Returns show ?thesis by (simp add: cmb_rep1_fn_def rep1_spec_def cmb_rep_fn_unfold)
    next
      case (Some di)
      obtain d it1 where "di = (d, it1)" by (cases di)
      with \<open>P c = Some out\<close> Returns Some have first: "P c = Success d it1" by simp
      have rep: "cmb_rep_fn P c = rep_loop P [d] it1"
        using first by (simp add: cmb_rep_fn_unfold)
      show ?thesis
      proof (cases "rep_loop P [] it1")
        case None
        then have "rep_loop P [d] it1 = None" by (rule rep_loop_None_transfer)
        with None first rep show ?thesis
          by (simp add: cmb_rep1_fn_def rep1_spec_def cmb_rep_fn_def)
      next
        case (Some out1)
        from rep_loop_transfer [OF this] show ?thesis
        proof
          assume "out1 = Undefined_Behaviour \<and> (\<forall>acc'. rep_loop P acc' it1 = Undefined)"
          with first rep show ?thesis
            by (simp add: cmb_rep1_fn_def rep1_spec_def cmb_rep_fn_def)
        next
          assume "\<exists>ds it'. out1 = Returns (Some (Collection ([] @ ds), it')) \<and> rep_run P it1 ds it'"
          then obtain ds it' where out1: "out1 = Returns (Some (Collection ds, it'))"
            and run: "rep_run P it1 ds it'" by auto
          have "cmb_rep_fn P c = Success (Collection (d # ds)) it'"
            using rep rep_loop_of_run [OF run, of "[d]"] by simp
          moreover have "cmb_rep_fn P it1 = Success (Collection ds) it'"
            using run by (rule cmb_rep_fn_of_run)
          ultimately show ?thesis using first
            by (simp add: cmb_rep1_fn_def rep1_spec_def)
        qed
      qed
    qed
  qed
qed

lemma cmb_rep1_fn_Failure: "cmb_rep1_fn P c = Failure \<longleftrightarrow> P c = Failure"
proof
  assume "P c = Failure"
  then show "cmb_rep1_fn P c = Failure"
    by (simp add: cmb_rep1_fn_def cmb_rep_fn_unfold)
next
  assume f: "cmb_rep1_fn P c = Failure"
  then obtain r where r: "cmb_rep_fn P c = Some (Returns r)"
    by (auto simp: cmb_rep1_fn_def after_call_eq_Some_Returns)
  from cmb_rep_fn_returns [OF r] obtain ds it' where
    "r = Some (Collection ds, it')" "rep_run P c ds it'" by blast
  with f r have "rep_run P c [] it'"
    by (auto simp: cmb_rep1_fn_def split: if_splits)
  then show "P c = Failure" by (simp add: rep_run_Nil)
qed

lemma cmb_rep1_fn_Success:
  "cmb_rep1_fn P c = Success d c' \<longleftrightarrow>
     cmb_rep_fn P c = Success d c' \<and> (\<exists>ds. d = Collection ds \<and> 1 \<le> length ds)"
proof
  assume s: "cmb_rep1_fn P c = Success d c'"
  then obtain r where r: "cmb_rep_fn P c = Some (Returns r)"
    by (auto simp: cmb_rep1_fn_def after_call_eq_Some_Returns)
  from cmb_rep_fn_returns [OF r] obtain ds it' where
    "r = Some (Collection ds, it')" "rep_run P c ds it'" by blast
  with s r show "cmb_rep_fn P c = Success d c' \<and> (\<exists>ds. d = Collection ds \<and> 1 \<le> length ds)"
    by (cases ds) (auto simp: cmb_rep1_fn_def split: if_splits)
next
  assume "cmb_rep_fn P c = Success d c' \<and> (\<exists>ds. d = Collection ds \<and> 1 \<le> length ds)"
  then show "cmb_rep1_fn P c = Success d c'"
    by (auto simp: cmb_rep1_fn_def)
qed

text \<open>
  C5, as the claim states it, at the parser \<^verbatim>\<open>succ\<close>: the zero-or-more repetition of a parser
  that succeeds without moving the cursor does not succeed, since its loop never ends.
\<close>

theorem repeat0_of_succ_never_returns:
  "cmb_rep_fn cmb_succ_fn (idx 0) = Never_Returns"
  by (rule cmb_rep_fn_no_progress [of _ _ "Tuple []"]) (simp add: cmb_succ_fn_def make_result_def)

text \<open>
  C5, amended: the zero-or-more repetition never returns the failure. Whenever the
  successive applications of the parser from the incoming cursor end with a failing one,
  it returns the success whose value is the collection of the values of these
  applications, in their order, and whose cursor is the one at which the parser failed;
  and every success it returns is of this form. In particular it returns the empty
  collection and the incoming cursor when the parser fails at once. When the parser
  succeeds without moving the cursor, the repetition never returns. A run ends at a cursor
  where the parser fails; this cursor is the one the last successful application returned,
  or the incoming one when the run is empty.
\<close>

theorem repeat0_collects_the_run:
  "cmb_rep_fn P c \<noteq> Failure \<and>
   (\<forall>ds c'. rep_run P c ds c' \<longrightarrow> cmb_rep_fn P c = Success (Collection ds) c') \<and>
   (\<forall>d c'. cmb_rep_fn P c = Success d c' \<longrightarrow> (\<exists>ds. d = Collection ds \<and> rep_run P c ds c')) \<and>
   (P c = Failure \<longrightarrow> cmb_rep_fn P c = Success (Collection []) c) \<and>
   (\<forall>d. P c = Success d c \<longrightarrow> cmb_rep_fn P c = Never_Returns) \<and>
   (\<forall>ds c'. rep_run P c ds c' \<longrightarrow> P c' = Failure) \<and>
   (\<forall>ds c'. rep_run P c ds c' \<and> ds \<noteq> [] \<longrightarrow> (\<exists>cl. P cl = Success (last ds) c')) \<and>
   (\<forall>c'. rep_run P c [] c' \<longleftrightarrow> P c = Failure \<and> c' = c)"
proof (intro conjI allI impI)
  show "cmb_rep_fn P c \<noteq> Failure"
    using cmb_rep_fn_returns [of P c None] by auto
  show "cmb_rep_fn P c = Success (Collection ds) c'" if "rep_run P c ds c'" for ds c'
    using that by (rule cmb_rep_fn_of_run)
  show "\<exists>ds. d = Collection ds \<and> rep_run P c ds c'" if "cmb_rep_fn P c = Success d c'" for d c'
    using cmb_rep_fn_returns [OF that] by auto
  show "cmb_rep_fn P c = Success (Collection []) c" if "P c = Failure"
    using that by (intro cmb_rep_fn_of_run rep_run_stop)
  show "cmb_rep_fn P c = Never_Returns" if "P c = Success d c" for d
    using that by (rule cmb_rep_fn_no_progress)
  show "P c' = Failure" if "rep_run P c ds c'" for ds c'
    using that by (rule rep_run_ends_in_failure)
  show "\<exists>cl. P cl = Success (last ds) c'" if "rep_run P c ds c' \<and> ds \<noteq> []" for ds c'
    using that rep_run_last_success [of P c ds c'] by blast
  show "rep_run P c [] c' \<longleftrightarrow> P c = Failure \<and> c' = c" for c'
    by (rule rep_run_Nil)
qed

theorem repeat0_collects_the_run_witness:
  "rep_run digit (idx 0) [Atom (Character CHR ''1'')] (idx 1) \<and>
   cmb_rep_fn digit (idx 0) = Success (Collection [Atom (Character CHR ''1'')]) (idx 1) \<and>
   digit (idx 1) = Failure \<and>
   cmb_rep_fn digit (idx 1) = Success (Collection []) (idx 1) \<and>
   cmb_succ_fn (idx 0) = Success (Tuple []) (idx 0) \<and>
   cmb_rep_fn cmb_succ_fn (idx 0) = Never_Returns \<and>
   (\<exists>cl. digit cl = Success (last [Atom (Character CHR ''1'')]) (idx 1))"
proof -
  note run = repeat0_collects_the_run [of digit "idx 0", THEN conjunct2, THEN conjunct1, rule_format]
  note none = repeat0_collects_the_run [of digit "idx 1", THEN conjunct2, THEN conjunct2,
      THEN conjunct2, THEN conjunct1, rule_format]
  note loop = repeat0_collects_the_run [of cmb_succ_fn "idx 0", THEN conjunct2, THEN conjunct2,
      THEN conjunct2, THEN conjunct2, THEN conjunct1, rule_format]
  note stop = repeat0_collects_the_run [of digit "idx 0", THEN conjunct2, THEN conjunct2,
      THEN conjunct2, THEN conjunct2, THEN conjunct2, THEN conjunct1, rule_format]
  note final = repeat0_collects_the_run [of digit "idx 0", THEN conjunct2, THEN conjunct2,
      THEN conjunct2, THEN conjunct2, THEN conjunct2, THEN conjunct2, THEN conjunct1, THEN spec,
      THEN spec, THEN mp, OF conjI, OF rep_run_digit_idx0]
  have l: "\<exists>cl. digit cl = Success (last [Atom (Character CHR ''1'')]) (idx 1)"
    by (rule final) simp
  have s: "cmb_succ_fn (idx 0) = Success (Tuple []) (idx 0)"
    by (simp add: cmb_succ_fn_def make_result_def)
  show ?thesis
    using rep_run_digit_idx0 run [OF rep_run_digit_idx0] stop [OF rep_run_digit_idx0]
      none [OF stop [OF rep_run_digit_idx0]] s loop [OF s] l
    by (intro conjI)
qed

text \<open>
  C6: the one-or-more repetition is equal, on every parser and cursor, to the parser
  applied once and followed by the zero-or-more repetition from the cursor it returned,
  with the first value put in front of the collected ones. It fails exactly when the
  parser fails at the incoming cursor, and its successes are the successes of the
  zero-or-more repetition at the same cursor whose collection has at least one element.
\<close>

theorem repeat1_is_one_then_repeat0:
  "cmb_rep1_fn P c = rep1_spec P c \<and>
   (cmb_rep1_fn P c = Failure \<longleftrightarrow> P c = Failure) \<and>
   (cmb_rep1_fn P c = Success d c' \<longleftrightarrow>
      cmb_rep_fn P c = Success d c' \<and> (\<exists>ds. d = Collection ds \<and> 1 \<le> length ds)) \<and>
   (rep1_spec P c = Success d c' \<longleftrightarrow>
      (\<exists>d1 c1 ds. P c = Success d1 c1 \<and> cmb_rep_fn P c1 = Success (Collection ds) c' \<and>
         d = Collection (d1 # ds)))"
proof (intro conjI)
  show "cmb_rep1_fn P c = rep1_spec P c" by (rule cmb_rep1_fn_refines)
  show "cmb_rep1_fn P c = Failure \<longleftrightarrow> P c = Failure" by (rule cmb_rep1_fn_Failure)
  show "cmb_rep1_fn P c = Success d c' \<longleftrightarrow>
      cmb_rep_fn P c = Success d c' \<and> (\<exists>ds. d = Collection ds \<and> 1 \<le> length ds)"
    by (rule cmb_rep1_fn_Success)
  show "rep1_spec P c = Success d c' \<longleftrightarrow>
      (\<exists>d1 c1 ds. P c = Success d1 c1 \<and> cmb_rep_fn P c1 = Success (Collection ds) c' \<and>
         d = Collection (d1 # ds))"
  proof
    assume s: "rep1_spec P c = Success d c'"
    then obtain d1 c1 where first: "P c = Success d1 c1"
      by (auto simp: rep1_spec_def after_call_eq_Some_Returns split: option.splits)
    with s obtain v where rest: "cmb_rep_fn P c1 = Success v c'" and d: "d = cons_collection d1 v"
      by (auto simp: rep1_spec_def after_call_eq_Some_Returns split: option.splits)
    from cmb_rep_fn_returns [OF rest] obtain ds where "v = Collection ds" by auto
    with first rest d show "\<exists>d1 c1 ds. P c = Success d1 c1 \<and>
        cmb_rep_fn P c1 = Success (Collection ds) c' \<and> d = Collection (d1 # ds)"
      by auto
  next
    assume "\<exists>d1 c1 ds. P c = Success d1 c1 \<and> cmb_rep_fn P c1 = Success (Collection ds) c' \<and>
         d = Collection (d1 # ds)"
    then show "rep1_spec P c = Success d c'"
      by (auto simp: rep1_spec_def)
  qed
qed

theorem repeat1_is_one_then_repeat0_witness:
  "cmb_rep1_fn digit (idx 0) = Success (Collection [Atom (Character CHR ''1'')]) (idx 1) \<and>
   rep1_spec digit (idx 0) = Success (Collection [Atom (Character CHR ''1'')]) (idx 1) \<and>
   cmb_rep_fn digit (idx 0) = Success (Collection [Atom (Character CHR ''1'')]) (idx 1) \<and>
   digit (idx 1) = Failure \<and> cmb_rep1_fn digit (idx 1) = Failure"
proof -
  have rep: "cmb_rep_fn digit (idx 0) = Success (Collection [Atom (Character CHR ''1'')]) (idx 1)"
    using rep_run_digit_idx0 by (rule cmb_rep_fn_of_run)
  have len: "\<exists>ds. Collection [Atom (Character CHR ''1'')] = Collection ds \<and> 1 \<le> length ds"
    by simp
  note T = repeat1_is_one_then_repeat0 [of digit "idx 0" "Collection [Atom (Character CHR ''1'')]" "idx 1"]
  note U = repeat1_is_one_then_repeat0 [of digit "idx 1" "Collection []" "idx 1"]
  from rep len
  have a: "cmb_rep1_fn digit (idx 0) = Success (Collection [Atom (Character CHR ''1'')]) (idx 1)"
    by (simp only: T [THEN conjunct2, THEN conjunct2, THEN conjunct1] simp_thms)
  have b: "rep1_spec digit (idx 0) = Success (Collection [Atom (Character CHR ''1'')]) (idx 1)"
    using a by (simp only: T [THEN conjunct1])
  from digit_idx1 have c: "cmb_rep1_fn digit (idx 1) = Failure"
    by (simp only: U [THEN conjunct2, THEN conjunct1])
  from a b rep digit_idx1 c show ?thesis by (intro conjI)
qed

subsection \<open>Map\<close>

lemma cmb_map_fn_Total:
  "cmb_map_fn P (Total f) c =
     (case P c of
        None \<Rightarrow> None
      | Some Undefined_Behaviour \<Rightarrow> Undefined
      | Some (Returns None) \<Rightarrow> Failure
      | Some (Returns (Some (v, c'))) \<Rightarrow> Success (unwrap_tuple (f (as_tuple v))) c')"
  by (simp add: cmb_map_fn_def after_call_def make_result_def cmb_fail_fn1_def
      split: option.split outcome.split)

lemma cmb_map_fn_Partial:
  "cmb_map_fn P (Partial g) c =
     (case P c of
        None \<Rightarrow> None
      | Some Undefined_Behaviour \<Rightarrow> Undefined
      | Some (Returns None) \<Rightarrow> Failure
      | Some (Returns (Some (v, c'))) \<Rightarrow>
          (case g (as_tuple v) of
             None \<Rightarrow> Failure
           | Some t \<Rightarrow> Success (unwrap_tuple t) c'))"
  by (simp add: cmb_map_fn_def after_call_def make_result_def cmb_fail_fn1_def
      split: option.split outcome.split)

lemma seq_three_idx0:
  "cmb_seq_fn cmb_one_fn [cmb_one_fn, cmb_one_fn] (idx 0) =
     Success (Tuple [Atom (Character CHR ''1''), Atom (Character CHR ''+''), Atom (Character CHR ''2'')])
       (idx 3)"
  by (simp add: one_idx example_stream_def make_result_def concat_values_def tuple_cat_def
      numeral_2_eq_2 numeral_3_eq_3)

text \<open>
  C7, as the claim states it, at two mappers that return a plain value. On the single
  token that \<^verbatim>\<open>one\<close> yields, \<^verbatim>\<open>std::make_tuple\<close> returns a one-element tuple, but the value
  of the map is the bare token. On the pair that the sequence of two \<^verbatim>\<open>one\<close> yields, the
  mapper that wraps the pair in a one-element tuple returns a value of one component, but
  the value of the map is the pair, of two components. In both cases the value of the map
  is not what the mapper returned: \<^verbatim>\<open>cmb_map_fn\<close> passes it through \<^verbatim>\<open>unwrap_tuple\<close>.
\<close>

theorem map_unwraps_the_result:
  "cmb_one_fn (idx 0) = Success (Atom (Character CHR ''1'')) (idx 1) \<and>
   make_tuple (as_tuple (Atom (Character CHR ''1''))) = Tuple [Atom (Character CHR ''1'')] \<and>
   cmb_map_fn cmb_one_fn (Total make_tuple) (idx 0) = Success (Atom (Character CHR ''1'')) (idx 1) \<and>
   cmb_seq_fn cmb_one_fn [cmb_one_fn] (idx 0) =
     Success (Tuple [Atom (Character CHR ''1''), Atom (Character CHR ''+'')]) (idx 2) \<and>
   nested_tuple (as_tuple (Tuple [Atom (Character CHR ''1''), Atom (Character CHR ''+'')])) =
     Tuple [Tuple [Atom (Character CHR ''1''), Atom (Character CHR ''+'')]] \<and>
   cmb_map_fn (cmb_seq_fn cmb_one_fn [cmb_one_fn]) (Total nested_tuple) (idx 0) =
     Success (Tuple [Atom (Character CHR ''1''), Atom (Character CHR ''+'')]) (idx 2)"
  by (simp add: cmb_map_fn_Total one_idx example_stream_def make_result_def concat_values_def
      tuple_cat_def numeral_2_eq_2 make_tuple_def nested_tuple_def)

text \<open>
  C7, amended: with a mapper that returns a plain value, the map returns a success exactly
  when the parser does; the cursor is the parser's, and the value is the mapper applied
  to the components of the parser's value, passed through \<^verbatim>\<open>unwrap_tuple\<close>, so it is the
  mapper's own result unless that is a one-element tuple. With a mapper that returns a
  \<^verbatim>\<open>maybe\<close>, an empty outcome makes the map fail, and the failure carries no cursor; a
  present outcome gives its content, passed through \<^verbatim>\<open>unwrap_tuple\<close>, with the parser's
  cursor. In both cases the map fails when the parser fails.
\<close>

theorem map_total_and_partial:
  "(cmb_map_fn P (Total f) c = Success d c' \<longleftrightarrow>
      (\<exists>v. P c = Success v c' \<and> d = unwrap_tuple (f (as_tuple v)))) \<and>
   (cmb_map_fn P (Total f) c = Failure \<longleftrightarrow> P c = Failure) \<and>
   (\<forall>v. P c = Success v c' \<and> (\<forall>x. f (as_tuple v) \<noteq> Tuple [x]) \<longrightarrow>
      cmb_map_fn P (Total f) c = Success (f (as_tuple v)) c') \<and>
   (cmb_map_fn P (Partial g) c = Success d c' \<longleftrightarrow>
      (\<exists>v t. P c = Success v c' \<and> g (as_tuple v) = Some t \<and> d = unwrap_tuple t)) \<and>
   (cmb_map_fn P (Partial g) c = Failure \<longleftrightarrow>
      (P c = Failure \<or> (\<exists>v c1. P c = Success v c1 \<and> g (as_tuple v) = None)))"
proof (intro conjI allI impI)
  show "cmb_map_fn P (Total f) c = Success d c' \<longleftrightarrow>
      (\<exists>v. P c = Success v c' \<and> d = unwrap_tuple (f (as_tuple v)))"
    by (auto simp: cmb_map_fn_Total split: option.splits outcome.splits)
  show "cmb_map_fn P (Total f) c = Failure \<longleftrightarrow> P c = Failure"
    by (auto simp: cmb_map_fn_Total split: option.splits outcome.splits)
  show "cmb_map_fn P (Total f) c = Success (f (as_tuple v)) c'"
    if "P c = Success v c' \<and> (\<forall>x. f (as_tuple v) \<noteq> Tuple [x])" for v
    using that by (simp add: cmb_map_fn_Total unwrap_tuple_other)
  show "cmb_map_fn P (Partial g) c = Success d c' \<longleftrightarrow>
      (\<exists>v t. P c = Success v c' \<and> g (as_tuple v) = Some t \<and> d = unwrap_tuple t)"
    by (auto simp: cmb_map_fn_Partial split: option.splits outcome.splits)
  show "cmb_map_fn P (Partial g) c = Failure \<longleftrightarrow>
      (P c = Failure \<or> (\<exists>v c1. P c = Success v c1 \<and> g (as_tuple v) = None))"
    by (auto simp: cmb_map_fn_Partial split: option.splits outcome.splits)
qed

theorem map_total_and_partial_witness:
  "cmb_seq_fn cmb_one_fn [cmb_one_fn, cmb_one_fn] (idx 0) =
     Success (Tuple [Atom (Character CHR ''1''), Atom (Character CHR ''+''), Atom (Character CHR ''2'')])
       (idx 3) \<and>
   cmb_map_fn (cmb_seq_fn cmb_one_fn [cmb_one_fn, cmb_one_fn]) sum_digits (idx 0) =
     Success (Atom (Number 3)) (idx 3) \<and>
   cmb_one_fn (idx 1) = Success (Atom (Character CHR ''+'')) (idx 2) \<and>
   is_digit [Atom (Character CHR ''+'')] = False \<and>
   cmb_map_fn cmb_one_fn (filter_impl is_digit) (idx 1) = Failure"
proof -
  let ?f = "\<lambda>args. Atom (Number (sum_list (map digit_value args)))"
  let ?g = "\<lambda>args. if is_digit args then Some (tuple_of args) else None"
  let ?v = "Tuple [Atom (Character CHR ''1''), Atom (Character CHR ''+''), Atom (Character CHR ''2'')]"
  have one1: "cmb_one_fn (idx 1) = Success (Atom (Character CHR ''+'')) (idx 2)"
    by (simp add: one_idx example_stream_def numeral_2_eq_2)
  have val: "?f (as_tuple ?v) = Atom (Number 3)" by simp
  have "\<forall>x. ?f (as_tuple ?v) \<noteq> Tuple [x]" by simp
  with seq_three_idx0
  have "cmb_map_fn (cmb_seq_fn cmb_one_fn [cmb_one_fn, cmb_one_fn]) (Total ?f) (idx 0) =
      Success (?f (as_tuple ?v)) (idx 3)"
    by (intro map_total_and_partial [THEN conjunct2, THEN conjunct2, THEN conjunct1, THEN spec,
          THEN mp] conjI)
  then have total: "cmb_map_fn (cmb_seq_fn cmb_one_fn [cmb_one_fn, cmb_one_fn]) sum_digits (idx 0) =
      Success (Atom (Number 3)) (idx 3)"
    by (simp only: val sum_digits_def)
  have absent: "?g (as_tuple (Atom (Character CHR ''+''))) = None" by simp
  have "cmb_one_fn (idx 1) = Failure \<or>
      (\<exists>v c1. cmb_one_fn (idx 1) = Success v c1 \<and> ?g (as_tuple v) = None)"
    using one1 absent by blast
  then have partial: "cmb_map_fn cmb_one_fn (filter_impl is_digit) (idx 1) = Failure"
    by (simp only: filter_impl_def
        map_total_and_partial [where P = cmb_one_fn and g = ?g and c = "idx 1",
          THEN conjunct2, THEN conjunct2, THEN conjunct2, THEN conjunct2])
  from seq_three_idx0 total one1 partial show ?thesis by simp
qed


subsection \<open>The shape of values\<close>

text \<open>
  C8, as the claim states it, at a one-element tuple whose component is a pair.
  Concatenated with the empty tuple, the arities are 0 and 1, but the result is the pair
  itself, of arity 2: \<^verbatim>\<open>unwrap_tuple\<close> unwraps the only component again, so two levels were
  flattened. Concatenated with a third value, the one-element tuple and its bare component
  give different results, so they are not interchangeable.
\<close>

theorem concat_of_nested_single_component:
  "arity (Tuple [] :: example_atom data) = 0 \<and>
   arity (Tuple [Tuple [Atom (Number 1), Atom (Number 2)]]) = 1 \<and>
   concat_values [Tuple [], Tuple [Tuple [Atom (Number 1), Atom (Number 2)]]] =
     Tuple [Atom (Number 1), Atom (Number 2)] \<and>
   arity (concat_values [Tuple [], Tuple [Tuple [Atom (Number 1), Atom (Number 2)]]]) = 2 \<and>
   concat_values [Tuple [Tuple [Atom (Number 1), Atom (Number 2)]], Atom (Number 3)] =
     Tuple [Tuple [Atom (Number 1), Atom (Number 2)], Atom (Number 3)] \<and>
   concat_values [Tuple [Atom (Number 1), Atom (Number 2)], Atom (Number 3)] =
     Tuple [Atom (Number 1), Atom (Number 2), Atom (Number 3)]"
  by (simp add: concat_values_def tuple_cat_def arity_def)

text \<open>
  C8, amended. (a) A one-element tuple unwraps to what its component unwraps to, and
  concatenated alone it gives what the component alone gives; this is the component
  itself unless the component is again a one-element tuple. A one-element tuple of a
  value that is no tuple stands for that value at every place of a concatenation.
  (b) The concatenation of two values of arities \<open>m\<close> and \<open>n\<close> (a tuple counts its
  components, any other value counts one) with \<open>m + n \<noteq> 1\<close> is the tuple of the components
  of the first followed by those of the second: it has arity \<open>m + n\<close>, the components are
  taken over as they are, and the two values are not nested in it. With \<open>m + n = 1\<close> it is
  the only component, unwrapped again and again, of arity 1 when that is no tuple. So the
  arity is \<open>m + n\<close> whenever neither value is a one-element tuple; and what \<^verbatim>\<open>unwrap_tuple\<close>
  and \<^verbatim>\<open>concat\<close> return is never a one-element tuple.
\<close>

theorem value_shaping:
  "unwrap_tuple (Tuple [v]) = unwrap_tuple v \<and>
   concat_values [Tuple [v]] = concat_values [v] \<and>
   ((\<forall>x. v \<noteq> Tuple [x]) \<longrightarrow> unwrap_tuple (Tuple [v]) = v \<and> concat_values [Tuple [v]] = v) \<and>
   ((\<forall>ys. v \<noteq> Tuple ys) \<longrightarrow>
      as_tuple (Tuple [v]) = as_tuple v \<and>
      concat_values (us @ Tuple [v] # ws) = concat_values (us @ v # ws)) \<and>
   arity (Tuple xs) = length xs \<and>
   (arity u + arity w \<noteq> 1 \<longrightarrow>
      concat_values [u, w] = Tuple (as_tuple u @ as_tuple w) \<and>
      arity (concat_values [u, w]) = arity u + arity w) \<and>
   (arity u + arity w = 1 \<longrightarrow>
      concat_values [u, w] = unwrap_tuple (hd (as_tuple u @ as_tuple w))) \<and>
   (arity u + arity w = 1 \<and> (\<forall>ys. unwrap_tuple (hd (as_tuple u @ as_tuple w)) \<noteq> Tuple ys) \<longrightarrow>
      arity (concat_values [u, w]) = 1) \<and>
   ((\<forall>x. u \<noteq> Tuple [x]) \<and> (\<forall>x. w \<noteq> Tuple [x]) \<longrightarrow>
      arity (concat_values [u, w]) = arity u + arity w) \<and>
   (\<forall>x. unwrap_tuple v \<noteq> Tuple [x]) \<and>
   (\<forall>x. concat_values args \<noteq> Tuple [x])"
proof (intro conjI impI allI)
  show "unwrap_tuple (Tuple [v]) = unwrap_tuple v" by simp
  show "concat_values [Tuple [v]] = concat_values [v]"
    using as_tuple_cases [of v] by (auto simp: concat_values_one)
  show "unwrap_tuple (Tuple [v]) = v" if "\<forall>x. v \<noteq> Tuple [x]"
    using that by (simp add: unwrap_tuple_other)
  show "concat_values [Tuple [v]] = v" if "\<forall>x. v \<noteq> Tuple [x]"
    using that by (simp add: concat_values_one unwrap_tuple_other)
  show "as_tuple (Tuple [v]) = as_tuple v" if "\<forall>ys. v \<noteq> Tuple ys"
    using that by (rule as_tuple_single)
  show "concat_values (us @ Tuple [v] # ws) = concat_values (us @ v # ws)" if "\<forall>ys. v \<noteq> Tuple ys"
    using that by (rule concat_values_single)
  show "arity (Tuple xs) = length xs" by (simp add: arity_def)
  show "concat_values [u, w] = Tuple (as_tuple u @ as_tuple w)" if "arity u + arity w \<noteq> 1"
    using that by (simp add: concat_values_two arity_def unwrap_tuple_long)
  then show "arity (concat_values [u, w]) = arity u + arity w" if "arity u + arity w \<noteq> 1"
    using that by (simp add: arity_def)
  show one: "concat_values [u, w] = unwrap_tuple (hd (as_tuple u @ as_tuple w))"
    if "arity u + arity w = 1"
  proof -
    from that have "as_tuple u @ as_tuple w = [hd (as_tuple u @ as_tuple w)]"
      by (intro single_hd) (simp add: arity_def)
    then have "unwrap_tuple (Tuple (as_tuple u @ as_tuple w)) =
        unwrap_tuple (hd (as_tuple u @ as_tuple w))"
      by (metis unwrap_tuple.simps(1))
    then show ?thesis by (simp add: concat_values_two)
  qed
  show "arity (concat_values [u, w]) = 1"
    if h: "arity u + arity w = 1 \<and> (\<forall>ys. unwrap_tuple (hd (as_tuple u @ as_tuple w)) \<noteq> Tuple ys)"
  proof -
    from h have eq: "concat_values [u, w] = unwrap_tuple (hd (as_tuple u @ as_tuple w))"
      by (intro one) blast
    from h have "\<forall>ys. unwrap_tuple (hd (as_tuple u @ as_tuple w)) \<noteq> Tuple ys" by blast
    then have "arity (unwrap_tuple (hd (as_tuple u @ as_tuple w))) = 1"
      by (cases "unwrap_tuple (hd (as_tuple u @ as_tuple w))") (simp_all add: arity_def)
    then show ?thesis by (simp only: eq)
  qed
  show "arity (concat_values [u, w]) = arity u + arity w"
    if "(\<forall>x. u \<noteq> Tuple [x]) \<and> (\<forall>x. w \<noteq> Tuple [x])"
    using that by (intro arity_concat_values_normal) blast+
  show "unwrap_tuple v \<noteq> Tuple [x]" for x
    by (rule unwrap_tuple_not_single)
  show "concat_values args \<noteq> Tuple [x]" for x
    by (rule concat_values_not_single)
qed

theorem value_shaping_witness:
  "unwrap_tuple (Tuple [Atom (Number 7)]) = Atom (Number 7) \<and>
   concat_values [Tuple [Atom (Number 7)]] = Atom (Number 7) \<and>
   arity (Tuple [Atom (Number 1), Atom (Number 2)]) + arity (Atom (Number 3)) = 3 \<and>
   concat_values [Tuple [Atom (Number 1), Atom (Number 2)], Atom (Number 3)] =
     Tuple [Atom (Number 1), Atom (Number 2), Atom (Number 3)] \<and>
   arity (concat_values [Tuple [Atom (Number 1), Atom (Number 2)], Atom (Number 3)]) = 3 \<and>
   arity (Tuple [] :: example_atom data) + arity (Atom (Number 3)) = 1 \<and>
   concat_values [Tuple [], Atom (Number 3)] = Atom (Number 3) \<and>
   arity (concat_values [Tuple [], Atom (Number 3)]) = 1 \<and>
   concat_values ([Atom (Number 3)] @ Tuple [Atom (Number 7)] # []) =
     concat_values ([Atom (Number 3)] @ Atom (Number 7) # [])"
proof -
  let ?v = "Atom (Number 7)" and ?u = "Tuple [Atom (Number 1), Atom (Number 2)]"
  let ?w = "Atom (Number 3)" and ?e = "Tuple [] :: example_atom data"
  have bare: "\<forall>x. ?v \<noteq> Tuple [x]" by simp
  have three: "arity ?u + arity ?w = 3" by (simp add: arity_def)
  then have not_one: "arity ?u + arity ?w \<noteq> 1" by simp
  have one: "arity ?e + arity ?w = 1" by (simp add: arity_def)
  have no_tuple: "\<forall>ys. unwrap_tuple (hd (as_tuple ?e @ as_tuple ?w)) \<noteq> Tuple ys" by simp
  note a = value_shaping [of ?v, THEN conjunct2, THEN conjunct2, THEN conjunct1, THEN mp, OF bare]
  note b = value_shaping [where u = ?u and w = ?w, THEN conjunct2, THEN conjunct2, THEN conjunct2,
      THEN conjunct2, THEN conjunct2, THEN conjunct1, THEN mp, OF not_one]
  note c = value_shaping [where u = ?e and w = ?w, THEN conjunct2, THEN conjunct2, THEN conjunct2,
      THEN conjunct2, THEN conjunct2, THEN conjunct2, THEN conjunct1, THEN mp, OF one]
  note d = value_shaping [where u = ?e and w = ?w, THEN conjunct2, THEN conjunct2, THEN conjunct2,
      THEN conjunct2, THEN conjunct2, THEN conjunct2, THEN conjunct2, THEN conjunct1, THEN mp,
      OF conjI, OF one no_tuple]
  have normal: "\<forall>x. ?u \<noteq> Tuple [x]" "\<forall>x. ?w \<noteq> Tuple [x]" by simp_all
  note f = value_shaping [where u = ?u and w = ?w, THEN conjunct2, THEN conjunct2, THEN conjunct2,
      THEN conjunct2, THEN conjunct2, THEN conjunct2, THEN conjunct2, THEN conjunct2,
      THEN conjunct1, THEN mp, OF conjI, OF normal]
  have no_tuple7: "\<forall>ys. ?v \<noteq> Tuple ys" by simp
  note e = value_shaping [where v = ?v and us = "[?w]" and ws = "[]", THEN conjunct2,
      THEN conjunct2, THEN conjunct2, THEN conjunct1, THEN mp, OF no_tuple7]
  from a b c d e f three one show ?thesis by (simp add: arity_def)
qed


subsection \<open>Folds\<close>

lemma foldl_impl_snoc: "foldl_impl f i (s @ [e]) = f (foldl_impl f i s) e"
  by (induction s arbitrary: i) simp_all

lemma foldl_impl_foldl: "foldl_impl f i s = foldl f i s"
  by (induction s arbitrary: i) simp_all

lemma foldr_loop_append: "foldr_loop f (xs @ ys) i = foldr_loop f ys (foldr_loop f xs i)"
  by (induction xs arbitrary: i) simp_all

lemma foldr_impl_Cons: "foldr_impl f (e # s) i = f e (foldr_impl f s i)"
  by (simp add: foldr_impl_def foldr_loop_append)

lemma foldr_impl_foldr: "foldr_impl f s i = foldr f s i"
  by (induction s) (simp_all add: foldr_impl_Cons, simp add: foldr_impl_def)

text \<open>
  C9: \<^verbatim>\<open>foldl\<close> on an initial value and a sequence is the left-nested accumulation: the
  initial value for the empty sequence, and the operation applied to the accumulation of
  the front and the last element otherwise, which is \<open>foldl\<close> of the list library.
  \<^verbatim>\<open>foldr\<close> on a sequence and an initial value is the right-nested accumulation: the
  operation applied to the first element and the accumulation of the rest, which is
  \<open>foldr\<close> of the list library. Both are plain functions of their arguments: they take no
  cursor and have no failing result.
\<close>

theorem folds_accumulate:
  "foldl_impl f i [] = i \<and>
   foldl_impl f i (s @ [e]) = f (foldl_impl f i s) e \<and>
   foldl_impl f i s = foldl f i s \<and>
   foldr_impl g [] j = j \<and>
   foldr_impl g (e # s) j = g e (foldr_impl g s j) \<and>
   foldr_impl g s j = foldr g s j"
  by (simp add: foldl_impl_snoc foldl_impl_foldl foldr_impl_Cons foldr_impl_foldr)

lemma folds_example:
  "foldl_impl (\<lambda>a e. a - e) 0 [5, 3, 1 :: int] = ((0 - 5) - 3) - 1 \<and>
   foldr_impl (\<lambda>e a. e - a) [5, 3, 1 :: int] 0 = 5 - (3 - (1 - 0))"
  by (simp add: foldr_impl_def)

end
